theory Spec2Isabelle
  imports Main "HOL-Library.Word"
begin

section \<open>Strings and numbers of the source language\<close>

text \<open>
  The program is TypeScript (\<^verbatim>\<open>src/utils/truncate.ts\<close>). A JavaScript string is a
  sequence of 16-bit code units; \<^verbatim>\<open>str.length\<close> counts code units and
  \<^verbatim>\<open>str.slice(0, n)\<close> keeps the first \<open>n\<close> of them (all of them when \<open>n\<close> is larger
  than the length). So a string is a list of 16-bit words, \<^verbatim>\<open>length\<close> is \<open>length\<close> and
  \<^verbatim>\<open>slice(0, n)\<close> with \<open>n \<ge> 0\<close> is \<open>take n\<close>.
\<close>

type_synonym jsstring = "16 word list"

text \<open>The code unit of an ASCII character and the code units of an ASCII literal.\<close>

definition codeUnit :: "char \<Rightarrow> 16 word" where
  "codeUnit c = of_char c"

definition ascii :: "string \<Rightarrow> jsstring" where
  "ascii s = map of_char s"

text \<open>
  A template literal \<^verbatim>\<open>${n}\<close> applies Number-to-String conversion. The numbers that
  the program converts this way are non-negative integers below \<open>2^53\<close> (differences of
  lengths, byte counts), for which the conversion is the decimal numeral without leading
  zeros.
\<close>

definition digit :: "nat \<Rightarrow> 16 word" where
  "digit d = of_nat (48 + d)"

fun decimal :: "nat \<Rightarrow> jsstring" where
  "decimal n = (if n < 10 then [digit n] else decimal (n div 10) @ [digit (n mod 10)])"

declare decimal.simps [simp del]

text \<open>Reading a decimal numeral back, to say which integer a digit string encodes.\<close>

definition digitValue :: "16 word \<Rightarrow> nat" where
  "digitValue c = unat c - 48"

definition decimalValue :: "jsstring \<Rightarrow> nat" where
  "decimalValue ds = foldl (\<lambda>acc c. 10 * acc + digitValue c) 0 ds"

section \<open>truncateString\<close>

text \<open>
  \<^verbatim>\<open>interface TruncateResult { value: string; truncated: boolean; originalLength: number }\<close>
\<close>

record truncateResult =
  "value" :: jsstring
  truncated :: bool
  originalLength :: nat

definition DEFAULT_MAX_STRING_LENGTH :: nat where
  "DEFAULT_MAX_STRING_LENGTH = 500"

text \<open>
  \<^verbatim>\<open>options?: Partial<TruncateOptions>\<close> carries at most the one number
  \<^verbatim>\<open>maxStringLength\<close>; \<open>None\<close> stands for an absent options object or an absent field,
  and \<^verbatim>\<open>options?.maxStringLength ?? DEFAULT_MAX_STRING_LENGTH\<close> reads it.
\<close>

definition maxStringLengthOf :: "nat option \<Rightarrow> nat" where
  "maxStringLengthOf options =
     (case options of None \<Rightarrow> DEFAULT_MAX_STRING_LENGTH | Some n \<Rightarrow> n)"

text \<open>
  The budget \<^verbatim>\<open>maxLength\<close> is a non-negative integer. The three local constants of the
  truncating branch are definitions of their own, so that theorems can speak about them:
  \<^verbatim>\<open>remaining = str.length - maxLength\<close>, the indicator \<^verbatim>\<open>`...[+${remaining} chars]`\<close>
  and \<^verbatim>\<open>truncateAt = Math.max(0, maxLength - indicatorLength)\<close>.
\<close>

definition remaining :: "jsstring \<Rightarrow> nat \<Rightarrow> nat" where
  "remaining str maxLength = length str - maxLength"

definition indicator :: "nat \<Rightarrow> jsstring" where
  "indicator n = ascii ''...[+'' @ decimal n @ ascii '' chars]''"

definition truncateAt :: "jsstring \<Rightarrow> nat \<Rightarrow> nat" where
  "truncateAt str maxLength =
     nat (max 0 (int maxLength - int (length (indicator (remaining str maxLength)))))"

definition truncateString :: "jsstring \<Rightarrow> nat \<Rightarrow> truncateResult" where
  "truncateString str maxLength =
     (if length str \<le> maxLength then
        \<lparr>value = str, truncated = False, originalLength = length str\<rparr>
      else
        \<lparr>value = take (truncateAt str maxLength) str @ indicator (remaining str maxLength),
         truncated = True,
         originalLength = length str\<rparr>)"

text \<open>
  The integer that a truncated value shows to its reader: the decimal digits that stand
  before the final \<^verbatim>\<open> chars]\<close>.
\<close>

definition isDecimalDigit :: "16 word \<Rightarrow> bool" where
  "isDecimalDigit c = (codeUnit CHR ''0'' \<le> c \<and> c \<le> codeUnit CHR ''9'')"

definition markerCount :: "jsstring \<Rightarrow> nat" where
  "markerCount v =
     decimalValue (rev (takeWhile isDecimalDigit (drop (length (ascii '' chars]'')) (rev v))))"

section \<open>JSON values and objects of the runtime\<close>

text \<open>
  The values that \<^verbatim>\<open>JSON.parse\<close> produces, as the tagged variant the traversal
  distinguishes with \<^verbatim>\<open>=== null\<close>, \<^verbatim>\<open>typeof\<close> and \<^verbatim>\<open>Array.isArray\<close>. The type
  parameter stands for the runtime's Number values, which the program never inspects.
  An object is the list of its own enumerable properties in the order in which
  \<^verbatim>\<open>Object.entries\<close> yields them.
\<close>

datatype 'n json =
    JNull
  | JBool bool
  | JNumber 'n
  | JString jsstring
  | JArray "'n json list"
  | JObject "(jsstring \<times> 'n json) list"

text \<open>
  The order of an object's own property keys (ECMAScript, OrdinaryOwnPropertyKeys): first
  the keys that are array indices, in ascending numeric order, then the other string keys
  in the order of their creation. An array index is a key that is the decimal numeral of
  an integer below \<open>2^32 - 1\<close>.
\<close>

definition arrayIndex :: "jsstring \<Rightarrow> nat option" where
  "arrayIndex key =
     (let n = decimalValue key
      in if key = decimal n \<and> n < 2 ^ 32 - 1 then Some n else None)"

definition keyBefore :: "jsstring \<Rightarrow> jsstring \<Rightarrow> bool" where
  "keyBefore k k' =
     (case arrayIndex k of
        Some i \<Rightarrow> (case arrayIndex k' of Some j \<Rightarrow> i < j | None \<Rightarrow> True)
      | None \<Rightarrow> (case arrayIndex k' of Some j \<Rightarrow> False | None \<Rightarrow> True))"

definition ownKeyOrder :: "jsstring list \<Rightarrow> bool" where
  "ownKeyOrder keys = sorted_wrt keyBefore keys"

text \<open>
  The lists that are objects of the runtime: the keys are distinct and stand in the
  order of own property keys, at every level.
\<close>

fun wellFormed :: "'n json \<Rightarrow> bool" where
  "wellFormed (JArray items) = list_all wellFormed items"
| "wellFormed (JObject entries) =
     (distinct (map fst entries) \<and> ownKeyOrder (map fst entries) \<and>
      list_all (\<lambda>(key, val). wellFormed val) entries)"
| "wellFormed v = True"

text \<open>
  The assignment \<^verbatim>\<open>result[key] = v\<close> on an object that was created by the literal
  \<^verbatim>\<open>{}\<close>, whose prototype is \<^verbatim>\<open>Object.prototype\<close>, as a function on the list of own
  properties:
  \<^item> the key \<^verbatim>\<open>__proto__\<close> is an accessor property of \<^verbatim>\<open>Object.prototype\<close>. The
    assignment finds no own property of that name, reaches the inherited accessor and
    calls its setter, which replaces the prototype of \<^verbatim>\<open>result\<close> when \<open>v\<close> is an object
    or \<^verbatim>\<open>null\<close> and does nothing otherwise. In both cases no own property is created;
  \<^item> for an own property that exists, the value is replaced and the position kept;
  \<^item> otherwise a new own property is created (every other property of
    \<^verbatim>\<open>Object.prototype\<close> and of the prototypes the setter can install is a writable
    data property, which does not stop the creation), at its place in the order of own
    property keys.
\<close>

definition PROTO :: jsstring where
  "PROTO = ascii ''__proto__''"

fun insertIndexed :: "nat \<Rightarrow> jsstring \<Rightarrow> 'v \<Rightarrow> (jsstring \<times> 'v) list \<Rightarrow> (jsstring \<times> 'v) list" where
  "insertIndexed i key v [] = [(key, v)]"
| "insertIndexed i key v ((k, w) # rest) =
     (case arrayIndex k of
        Some j \<Rightarrow>
          if j < i then (k, w) # insertIndexed i key v rest else (key, v) # (k, w) # rest
      | None \<Rightarrow> (key, v) # (k, w) # rest)"

definition setProperty :: "(jsstring \<times> 'v) list \<Rightarrow> jsstring \<Rightarrow> 'v \<Rightarrow> (jsstring \<times> 'v) list" where
  "setProperty props key v =
     (if key = PROTO then props
      else if key \<in> set (map fst props) then
        map (\<lambda>(k, w). if k = key then (k, v) else (k, w)) props
      else
        (case arrayIndex key of
           Some i \<Rightarrow> insertIndexed i key v props
         | None \<Rightarrow> props @ [(key, v)]))"

section \<open>truncateJsonValues\<close>

text \<open>
  The branches in the order of the source: \<^verbatim>\<open>null\<close>, string, the other primitives, array
  (\<^verbatim>\<open>obj.map\<close>), object (a loop over \<^verbatim>\<open>Object.entries(obj)\<close> that assigns
  \<^verbatim>\<open>result[key] = truncateJsonValues(value, options)\<close> on a fresh \<^verbatim>\<open>{}\<close>). The source
  also returns \<^verbatim>\<open>undefined\<close> unchanged; \<^verbatim>\<open>undefined\<close> is not a JSON value.
\<close>

fun truncateJsonValues :: "'n json \<Rightarrow> nat option \<Rightarrow> 'n json" where
  "truncateJsonValues JNull options = JNull"
| "truncateJsonValues (JString s) options =
     JString (value (truncateString s (maxStringLengthOf options)))"
| "truncateJsonValues (JBool b) options = JBool b"
| "truncateJsonValues (JNumber n) options = JNumber n"
| "truncateJsonValues (JArray items) options =
     JArray (map (\<lambda>item. truncateJsonValues item options) items)"
| "truncateJsonValues (JObject entries) options =
     JObject (fold (\<lambda>(key, val) result. setProperty result key (truncateJsonValues val options))
                entries [])"

text \<open>
  The function calls itself once for every level of nesting and has no guard on the
  depth, so on a call stack of bounded size a value that is nested too deeply makes it
  raise a \<^verbatim>\<open>RangeError\<close>. \<open>truncateJsonValuesWithin d\<close> is the traversal on a stack that
  holds \<open>d\<close> nested activations of the function; \<open>None\<close> stands for the exception, which
  leaves the \<^verbatim>\<open>map\<close> of an array and the loop of an object at the first element that
  raises it. \<open>nesting\<close> is the number of nested activations that the traversal of a
  value needs. The room is counted in activations of the function (a level of an array
  also holds the frames of \<^verbatim>\<open>map\<close> and of its callback); how many of them a stack
  holds is left open, and every theorem holds for every bound.
\<close>

fun nesting :: "'n json \<Rightarrow> nat" where
  "nesting (JArray items) = Suc (foldr max (map nesting items) 0)"
| "nesting (JObject entries) = Suc (foldr max (map (\<lambda>(key, val). nesting val) entries) 0)"
| "nesting v = Suc 0"

fun truncateJsonValuesWithin :: "nat \<Rightarrow> 'n json \<Rightarrow> nat option \<Rightarrow> 'n json option" where
  "truncateJsonValuesWithin 0 obj options = None"
| "truncateJsonValuesWithin (Suc d) JNull options = Some JNull"
| "truncateJsonValuesWithin (Suc d) (JString s) options =
     Some (JString (value (truncateString s (maxStringLengthOf options))))"
| "truncateJsonValuesWithin (Suc d) (JBool b) options = Some (JBool b)"
| "truncateJsonValuesWithin (Suc d) (JNumber n) options = Some (JNumber n)"
| "truncateJsonValuesWithin (Suc d) (JArray items) options =
     map_option JArray (those (map (\<lambda>item. truncateJsonValuesWithin d item options) items))"
| "truncateJsonValuesWithin (Suc d) (JObject entries) options =
     map_option JObject
       (fold (\<lambda>(key, val) result.
                case result of
                  None \<Rightarrow> None
                | Some props \<Rightarrow>
                    (case truncateJsonValuesWithin d val options of
                       None \<Rightarrow> None
                     | Some w \<Rightarrow> Some (setProperty props key w)))
          entries (Some []))"

text \<open>
  What the shape of a value is: the value with every string leaf emptied. Two values
  have the same skeleton exactly when they have the same constructors, the same keys in
  the same order in every object, the same number and order of elements in every array
  and the same null, boolean and number leaves.
\<close>

fun skeleton :: "'n json \<Rightarrow> 'n json" where
  "skeleton (JString s) = JString []"
| "skeleton (JArray items) = JArray (map skeleton items)"
| "skeleton (JObject entries) = JObject (map (\<lambda>(key, val). (key, skeleton val)) entries)"
| "skeleton v = v"

text \<open>No object of the value, at any depth, has an own property named \<^verbatim>\<open>__proto__\<close>.\<close>

fun protoFree :: "'n json \<Rightarrow> bool" where
  "protoFree (JArray items) = list_all protoFree items"
| "protoFree (JObject entries) =
     (PROTO \<notin> set (map fst entries) \<and> list_all (\<lambda>(key, val). protoFree val) entries)"
| "protoFree v = True"

text \<open>Every string leaf of the value has at most \<open>b\<close> code units.\<close>

fun stringsWithin :: "nat \<Rightarrow> 'n json \<Rightarrow> bool" where
  "stringsWithin b (JString s) = (length s \<le> b)"
| "stringsWithin b (JArray items) = list_all (stringsWithin b) items"
| "stringsWithin b (JObject entries) = list_all (\<lambda>(key, val). stringsWithin b val) entries"
| "stringsWithin b v = True"

section \<open>formatBinarySize\<close>

text \<open>
  \<^verbatim>\<open>bytes\<close> is a non-negative integer below \<open>2^53\<close> (the caller passes
  \<^verbatim>\<open>Math.floor((body.length * 3) / 4)\<close>). The quotients \<^verbatim>\<open>bytes / 1024\<close> and
  \<^verbatim>\<open>bytes / (1024 * 1024)\<close> divide such an integer by a power of two, which is exact in
  binary floating point, and \<^verbatim>\<open>x.toFixed(1)\<close> is specified on the exact value of \<open>x\<close>:
  it prints the integer \<open>n\<close> for which \<open>n / 10\<close> is nearest to \<open>x\<close>, the larger one on a
  tie, with the last digit after the point. For \<open>x = num / den\<close> that \<open>n\<close> is
  \<open>(20 * num + den) div (2 * den)\<close>.
\<close>

definition toFixed1 :: "nat \<Rightarrow> nat \<Rightarrow> jsstring" where
  "toFixed1 num den =
     (let n = (20 * num + den) div (2 * den)
      in decimal (n div 10) @ ascii ''.'' @ [digit (n mod 10)])"

definition formatBinarySize :: "nat \<Rightarrow> jsstring" where
  "formatBinarySize bytes =
     (if bytes < 1024 then
        ascii ''[Binary data: '' @ decimal bytes @ ascii '' B]''
      else if bytes < 1024 * 1024 then
        ascii ''[Binary data: '' @ toFixed1 bytes 1024 @ ascii '' KB]''
      else
        ascii ''[Binary data: '' @ toFixed1 bytes (1024 * 1024) @ ascii '' MB]'')"

section \<open>isBase64Binary\<close>

text \<open>
  The character classes of the three regular expressions. \<^verbatim>\<open>\s\<close> is the white space
  and line terminator code units of ECMAScript; \<^verbatim>\<open>[+/=]\<close> and \<^verbatim>\<open>[A-Za-z0-9+/]\<close> are
  ASCII classes.
\<close>

definition isWhitespace :: "16 word \<Rightarrow> bool" where
  "isWhitespace c =
     (c \<in> set [0x0009, 0x000A, 0x000B, 0x000C, 0x000D, 0x0020, 0x00A0, 0x1680,
                0x2028, 0x2029, 0x202F, 0x205F, 0x3000, 0xFEFF]
      \<or> (0x2000 \<le> c \<and> c \<le> 0x200A))"

definition isPlusSlashEquals :: "16 word \<Rightarrow> bool" where
  "isPlusSlashEquals c =
     (c = codeUnit CHR ''+'' \<or> c = codeUnit CHR ''/'' \<or> c = codeUnit CHR ''='')"

definition isBase64Alphabet :: "16 word \<Rightarrow> bool" where
  "isBase64Alphabet c =
     ((codeUnit CHR ''A'' \<le> c \<and> c \<le> codeUnit CHR ''Z'') \<or>
      (codeUnit CHR ''a'' \<le> c \<and> c \<le> codeUnit CHR ''z'') \<or>
      (codeUnit CHR ''0'' \<le> c \<and> c \<le> codeUnit CHR ''9'') \<or>
      c = codeUnit CHR ''+'' \<or> c = codeUnit CHR ''/'')"

text \<open>
  \<^verbatim>\<open>/^[A-Za-z0-9+/]+=*$/\<close>: the whole string is one or more characters of the alphabet
  followed by any number of \<^verbatim>\<open>=\<close>. Since \<^verbatim>\<open>=\<close> is not in the alphabet, the alphabet part
  of a match is the longest prefix of alphabet characters.
\<close>

definition base64Pattern :: "jsstring \<Rightarrow> bool" where
  "base64Pattern s =
     (takeWhile isBase64Alphabet s \<noteq> [] \<and>
      list_all (\<lambda>c. c = codeUnit CHR ''='') (dropWhile isBase64Alphabet s))"

definition isBase64Binary :: "jsstring \<Rightarrow> bool" where
  "isBase64Binary str =
     (if length str < 100 then False
      else
        let cleaned = filter (\<lambda>c. \<not> isWhitespace c) str
        in if length cleaned mod 4 \<noteq> 0 then False
           else
             let hasBase64Chars = list_ex isPlusSlashEquals cleaned
             in if \<not> hasBase64Chars then False
                else
                  let sample = take 1000 cleaned
                  in base64Pattern sample)"

text \<open>The characters \<^verbatim>\<open>[A-Za-z0-9]\<close>, for the statement about alphanumeric strings.\<close>

definition isAlphanumeric :: "16 word \<Rightarrow> bool" where
  "isAlphanumeric c =
     ((codeUnit CHR ''A'' \<le> c \<and> c \<le> codeUnit CHR ''Z'') \<or>
      (codeUnit CHR ''a'' \<le> c \<and> c \<le> codeUnit CHR ''z'') \<or>
      (codeUnit CHR ''0'' \<le> c \<and> c \<le> codeUnit CHR ''9''))"

section \<open>truncateResponseBody\<close>

datatype bodyKind = JsonBody | BinaryBody | TextBody

record responseBody =
  body :: jsstring
  truncated :: bool
  originalLength :: nat
  type :: bodyKind

text \<open>
  \<^verbatim>\<open>JSON.parse\<close> and \<^verbatim>\<open>JSON.stringify(_, null, 2)\<close> belong to the runtime, not to the
  program, and are parameters, and so is the room that the call stack leaves. The
  \<^verbatim>\<open>try\<close> block can raise in three places, and the \<^verbatim>\<open>catch\<close>, which names no
  exception type, sends every one of them to the text branch:
  \<^item> \<^verbatim>\<open>JSON.parse\<close> throws on a body that is not JSON (or that it cannot hold):
    \<open>JSON_parse body\<close> is \<open>None\<close>;
  \<^item> \<^verbatim>\<open>truncateJsonValues\<close> exhausts the call stack on a value that is nested too
    deeply: \<open>stackLimit\<close> is the number of nested activations of the function that the
    stack holds when \<^verbatim>\<open>truncateResponseBody\<close> is called, and the traversal is
    \<open>truncateJsonValuesWithin stackLimit\<close>;
  \<^item> one of the two calls of \<^verbatim>\<open>JSON.stringify\<close> throws, which recurses over the value
    in the same way: \<open>JSON_stringify v\<close> is \<open>None\<close>.
  The \<^verbatim>\<open>try\<close> block is the option \<open>attempt\<close>, whose \<open>None\<close> is the \<^verbatim>\<open>catch\<close>.
  \<^verbatim>\<open>Math.floor((body.length * 3) / 4)\<close> is integer division.
\<close>

definition truncateResponseBody ::
  "(jsstring \<Rightarrow> 'n json option) \<Rightarrow> ('n json \<Rightarrow> jsstring option) \<Rightarrow> nat \<Rightarrow>
   jsstring \<Rightarrow> bool \<Rightarrow> nat option \<Rightarrow> responseBody" where
  "truncateResponseBody JSON_parse JSON_stringify stackLimit body' base64Encoded options =
     (let maxStringLength = maxStringLengthOf options
      in if base64Encoded \<or> isBase64Binary body' then
           let estimatedBytes = (length body' * 3) div 4
           in \<lparr>body = formatBinarySize estimatedBytes,
               truncated = True,
               originalLength = length body',
               type = BinaryBody\<rparr>
         else
           let attempt =
                 (case JSON_parse body' of
                    None \<Rightarrow> None
                  | Some parsed \<Rightarrow>
                      (case truncateJsonValuesWithin stackLimit parsed (Some maxStringLength) of
                         None \<Rightarrow> None
                       | Some truncated' \<Rightarrow>
                           (case JSON_stringify truncated' of
                              None \<Rightarrow> None
                            | Some truncatedBody \<Rightarrow>
                                (case JSON_stringify parsed of
                                   None \<Rightarrow> None
                                 | Some originalFormatted \<Rightarrow>
                                     Some \<lparr>body = truncatedBody,
                                           truncated =
                                             length truncatedBody < length originalFormatted,
                                           originalLength = length body',
                                           type = JsonBody\<rparr>))))
           in (case attempt of
                 Some r \<Rightarrow> r
               | None \<Rightarrow>
                   let result = truncateString body' maxStringLength
                   in \<lparr>body = value result,
                       truncated = truncateResult.truncated result,
                       originalLength = truncateResult.originalLength result,
                       type = TextBody\<rparr>))"

section \<open>truncateNetworkEntry and truncateHeaders\<close>

text \<open>
  \<^verbatim>\<open>interface NetworkEntryForTruncation\<close>; an optional field is an \<open>option\<close>. The
  function is generic in \<^verbatim>\<open>T extends NetworkEntryForTruncation\<close>: the further fields of
  \<open>T\<close> are the extension part of the record, which the spread \<^verbatim>\<open>...entry\<close> copies.
  \<^verbatim>\<open>entry.statusText ? a : b\<close> tests truthiness: the field is present and not the empty
  string; otherwise the field is copied as it is.
\<close>

record 'n networkEntryForTruncation =
  requestId :: jsstring
  "method" :: jsstring
  url :: jsstring
  status :: "'n option"
  statusText :: "jsstring option"
  mimeType :: "jsstring option"
  resourceType :: jsstring
  timestamp :: 'n
  completed :: bool
  error :: "jsstring option"

definition truncateNetworkEntry ::
  "('n, 'z) networkEntryForTruncation_scheme \<Rightarrow> nat option \<Rightarrow>
   ('n, 'z) networkEntryForTruncation_scheme" where
  "truncateNetworkEntry entry options =
     (let maxStringLength = maxStringLengthOf options
      in entry\<lparr>url := value (truncateString (url entry) maxStringLength),
               statusText :=
                 (case statusText entry of
                    Some s \<Rightarrow>
                      if s \<noteq> [] then Some (value (truncateString s maxStringLength))
                      else statusText entry
                  | None \<Rightarrow> statusText entry),
               error :=
                 (case error entry of
                    Some s \<Rightarrow>
                      if s \<noteq> [] then Some (value (truncateString s maxStringLength))
                      else error entry
                  | None \<Rightarrow> error entry)\<rparr>)"

text \<open>
  \<^verbatim>\<open>Record<string, string>\<close> is an object whose values are strings: the list of its
  own properties. The loop assigns \<^verbatim>\<open>result[key] = truncateString(value, ...).value\<close> on
  a fresh \<^verbatim>\<open>{}\<close>.
\<close>

definition truncateHeaders :: "(jsstring \<times> jsstring) list \<Rightarrow> nat option \<Rightarrow> (jsstring \<times> jsstring) list" where
  "truncateHeaders headers options =
     (let maxStringLength = maxStringLengthOf options
      in fold (\<lambda>(key, val) result.
                 setProperty result key (value (truncateString val maxStringLength)))
           headers [])"

section \<open>Properties of truncateString\<close>

lemma digitValue_digit:
  assumes "d < 10"
  shows "digitValue (digit d) = d"
proof -
  from assms have "(48 + d) mod 2 ^ LENGTH(16) = 48 + d" by simp
  then have "unat (of_nat (48 + d) :: 16 word) = 48 + d"
    by (simp only: unat_of_nat)
  then show ?thesis by (simp only: digitValue_def digit_def)
qed

lemma decimalValue_snoc:
  "decimalValue (ds @ [c]) = 10 * decimalValue ds + digitValue c"
  by (simp add: decimalValue_def)

lemma decimalValue_decimal: "decimalValue (decimal n) = n"
proof (induction n rule: decimal.induct)
  case (1 n)
  show ?case
  proof (cases "n < 10")
    case True
    then show ?thesis
      by (subst decimal.simps) (simp add: decimalValue_def digitValue_digit)
  next
    case False
    with 1 have "decimalValue (decimal (n div 10)) = n div 10" by simp
    with False show ?thesis
      by (subst decimal.simps) (simp add: decimalValue_snoc digitValue_digit)
  qed
qed

lemma length_decimal_pos: "0 < length (decimal n)"
  by (subst decimal.simps) simp

lemma length_indicator: "length (indicator n) = 12 + length (decimal n)"
  by (simp add: indicator_def ascii_def)

lemma digit_isDecimalDigit:
  assumes "d < 10"
  shows "isDecimalDigit (digit d)"
proof -
  from assms have "(48 + d) mod 2 ^ LENGTH(16) = 48 + d" by simp
  then have u: "unat (of_nat (48 + d) :: 16 word) = 48 + d"
    by (simp only: unat_of_nat)
  have "unat (codeUnit CHR ''0'') = 48" and "unat (codeUnit CHR ''9'') = 57"
    by (simp_all add: codeUnit_def)
  with u assms show ?thesis
    by (simp only: isDecimalDigit_def digit_def word_le_nat_alt) simp
qed

lemma decimal_all_digits: "list_all isDecimalDigit (decimal n)"
proof (induction n rule: decimal.induct)
  case (1 n)
  show ?case
  proof (cases "n < 10")
    case True
    then show ?thesis
      by (subst decimal.simps) (simp add: digit_isDecimalDigit)
  next
    case False
    with 1 have "list_all isDecimalDigit (decimal (n div 10))" by simp
    with False show ?thesis
      by (subst decimal.simps) (simp add: digit_isDecimalDigit)
  qed
qed

lemma markerCount_marker:
  "markerCount (kept @ ascii ''...[+'' @ decimal n @ ascii '' chars]'') = n"
proof -
  have plus: "\<not> isDecimalDigit (codeUnit CHR ''+'')"
    by (simp add: isDecimalDigit_def codeUnit_def)
  have open_rev: "rev (ascii ''...[+'') = codeUnit CHR ''+'' # rev (ascii ''...['')"
    by (simp add: ascii_def codeUnit_def)
  have "rev (kept @ ascii ''...[+'' @ decimal n @ ascii '' chars]'') =
        rev (ascii '' chars]'') @ rev (decimal n) @ rev (ascii ''...[+'') @ rev kept"
    by simp
  then have "drop (length (ascii '' chars]''))
               (rev (kept @ ascii ''...[+'' @ decimal n @ ascii '' chars]'')) =
             rev (decimal n) @ rev (ascii ''...[+'') @ rev kept"
    by simp
  moreover have "takeWhile isDecimalDigit (rev (decimal n) @ rev (ascii ''...[+'') @ rev kept) =
                 rev (decimal n)"
  proof -
    have "\<And>c. c \<in> set (rev (decimal n)) \<Longrightarrow> isDecimalDigit c"
      using decimal_all_digits [of n] by (simp add: list_all_iff)
    then have "takeWhile isDecimalDigit (rev (decimal n) @ rev (ascii ''...[+'') @ rev kept) =
               rev (decimal n) @ takeWhile isDecimalDigit (rev (ascii ''...[+'') @ rev kept)"
      by (rule takeWhile_append2)
    then show ?thesis
      by (simp add: open_rev plus)
  qed
  ultimately show ?thesis
    by (simp only: markerCount_def rev_rev_ident decimalValue_decimal)
qed

text \<open>
  C2. A string that fits the budget is returned unchanged: the result is the record
  with the input as value, \<open>truncated = False\<close> and the input's length.
\<close>

theorem truncateString_within_budget:
  assumes "length s \<le> b"
  shows "truncateString s b = \<lparr>value = s, truncateResult.truncated = False,
           truncateResult.originalLength = length s\<rparr>"
  using assms by (simp add: truncateString_def)

theorem truncateString_within_budget_witness:
  "length (ascii ''hello world'') \<le> 500 \<and>
   truncateString (ascii ''hello world'') 500 =
     \<lparr>value = ascii ''hello world'', truncateResult.truncated = False,
       truncateResult.originalLength = 11\<rparr>"
  using truncateString_within_budget [of "ascii ''hello world''" 500]
  by (simp add: ascii_def)

text \<open>
  C1. A string longer than the budget is truncated: \<open>truncated = True\<close>, the original
  length is reported, and the value is the slice of the input up to
  \<open>max 0 (b - length marker)\<close> followed by the marker \<open>...[+N chars]\<close>, whose digits are
  the decimal numeral of \<open>N = length s - b\<close> (reading them back gives exactly that
  number).
\<close>

theorem truncateString_over_budget:
  assumes "b < length s"
  shows "let N = length s - b;
             marker = ascii ''...[+'' @ decimal N @ ascii '' chars]''
         in truncateResult.truncated (truncateString s b) = True \<and>
            truncateResult.originalLength (truncateString s b) = length s \<and>
            value (truncateString s b) =
              take (nat (max 0 (int b - int (length marker)))) s @ marker \<and>
            decimalValue (decimal N) = length s - b"
  using assms
  by (simp add: truncateString_def truncateAt_def remaining_def indicator_def
      decimalValue_decimal Let_def)

theorem truncateString_over_budget_witness:
  "15 < length (ascii ''aaaaaaaaaaaaaaaaaaaa'') \<and>
   truncateResult.truncated (truncateString (ascii ''aaaaaaaaaaaaaaaaaaaa'') 15) = True \<and>
   truncateResult.originalLength (truncateString (ascii ''aaaaaaaaaaaaaaaaaaaa'') 15) = 20 \<and>
   value (truncateString (ascii ''aaaaaaaaaaaaaaaaaaaa'') 15) = ascii ''aa...[+5 chars]''"
proof -
  have h: "15 < length (ascii ''aaaaaaaaaaaaaaaaaaaa'')"
    by code_simp
  have len: "length (ascii ''aaaaaaaaaaaaaaaaaaaa'') = 20"
    by code_simp
  have m: "take (nat (max 0 (int 15 -
                  int (length (ascii ''...[+'' @ decimal (20 - 15) @ ascii '' chars]'')))))
             (ascii ''aaaaaaaaaaaaaaaaaaaa'') @
           ascii ''...[+'' @ decimal (20 - 15) @ ascii '' chars]'' =
           ascii ''aa...[+5 chars]''"
    by code_simp
  from truncateString_over_budget [OF h] m show ?thesis
    by (simp only: len Let_def h) simp
qed

text \<open>
  C5 as stated fails. The claim reads the marker's integer as the number of characters
  of the input that are missing from the output, that is the original length minus the
  length of the kept prefix. On the 20-character input below with budget 15 the output is
  the kept prefix \<open>aa\<close> (2 characters of the input) followed by \<open>...[+5 chars]\<close>: the
  marker says 5, while 18 characters of the input were removed.
\<close>

theorem marker_is_not_removed_count_counterexample:
  "value (truncateString (ascii ''aaaaaaaaaaaaaaaaaaaa'') 15) = ascii ''aa'' @ indicator 5 \<and>
   indicator 5 = ascii ''...[+5 chars]'' \<and>
   truncateResult.originalLength (truncateString (ascii ''aaaaaaaaaaaaaaaaaaaa'') 15) - length (ascii ''aa'') \<noteq> 5"
  by code_simp

text \<open>
  C5 as amended. For a string longer than the budget the output is a prefix of the
  input followed by the marker \<open>...[+N chars]\<close>, and the integer that the output shows
  (the digits before the final \<open> chars]\<close>) is \<open>length s - b\<close>, the excess of the input
  over the budget. The source leaves room for the marker inside the budget
  (\<^verbatim>\<open>truncateAt = Math.max(0, maxLength - indicatorLength)\<close>), so when the marker fits
  the budget the output has exactly \<open>b\<close> characters, the integer shown is the original
  length minus the length of the whole output, and the number of input characters
  removed is the integer shown plus the marker's own length; when the marker is longer
  than the budget no input character is kept.
\<close>

theorem marker_is_excess_over_budget:
  assumes "b < length s"
  shows "let N = length s - b;
             marker = ascii ''...[+'' @ decimal N @ ascii '' chars]'';
             kept = nat (max 0 (int b - int (length marker)))
         in value (truncateString s b) = take kept s @ marker \<and>
            length (take kept s) = kept \<and>
            markerCount (value (truncateString s b)) = length s - b \<and>
            (length marker \<le> b \<longrightarrow>
               length (value (truncateString s b)) = b \<and>
               markerCount (value (truncateString s b)) =
                 truncateResult.originalLength (truncateString s b) -
                 length (value (truncateString s b)) \<and>
               length s - kept = markerCount (value (truncateString s b)) + length marker) \<and>
            (b < length marker \<longrightarrow>
               kept = 0 \<and> value (truncateString s b) = marker)"
proof -
  let ?N = "length s - b"
  let ?marker = "ascii ''...[+'' @ decimal ?N @ ascii '' chars]''"
  let ?kept = "nat (max 0 (int b - int (length ?marker)))"
  let ?out = "value (truncateString s b)"
  have val: "?out = take ?kept s @ ?marker"
    and orig: "truncateResult.originalLength (truncateString s b) = length s"
    using assms
    by (simp_all add: truncateString_def truncateAt_def remaining_def indicator_def)
  have "?kept \<le> b" by simp
  with assms have kept: "length (take ?kept s) = ?kept"
    by simp
  have shown: "markerCount ?out = length s - b"
    by (simp only: val markerCount_marker)
  have fits: "length ?out = b \<and>
      markerCount ?out = truncateResult.originalLength (truncateString s b) - length ?out \<and>
      length s - ?kept = markerCount ?out + length ?marker"
    if "length ?marker \<le> b"
  proof -
    from that have cut: "?kept = b - length ?marker"
      by simp
    from that assms have len: "length ?out = b"
      by (simp only: val length_append kept cut) simp
    from that assms cut have "length s - ?kept = (length s - b) + length ?marker"
      by simp
    with len show ?thesis
      by (simp only: shown orig)
  qed
  have small: "?kept = 0 \<and> ?out = ?marker"
    if "b < length ?marker"
  proof -
    from that have zero: "?kept = 0"
      by simp
    then have "take ?kept s = []"
      by (simp only: take_0)
    with zero val show ?thesis
      by simp
  qed
  from val kept shown fits small show ?thesis
    by (simp only: Let_def) blast
qed

theorem marker_is_excess_over_budget_witness:
  "15 < length (ascii ''aaaaaaaaaaaaaaaaaaaa'') \<and>
   length (ascii ''...[+'' @ decimal (20 - 15) @ ascii '' chars]'') \<le> 15 \<and>
   value (truncateString (ascii ''aaaaaaaaaaaaaaaaaaaa'') 15) = ascii ''aa...[+5 chars]'' \<and>
   markerCount (value (truncateString (ascii ''aaaaaaaaaaaaaaaaaaaa'') 15)) = 5 \<and>
   length (value (truncateString (ascii ''aaaaaaaaaaaaaaaaaaaa'') 15)) = 15 \<and>
   3 < length (ascii ''aaaaaaaaaaaaaaaaaaaa'') \<and>
   3 < length (ascii ''...[+'' @ decimal (20 - 3) @ ascii '' chars]'') \<and>
   value (truncateString (ascii ''aaaaaaaaaaaaaaaaaaaa'') 3) = ascii ''...[+17 chars]'' \<and>
   markerCount (value (truncateString (ascii ''aaaaaaaaaaaaaaaaaaaa'') 3)) = 17"
proof -
  let ?s = "ascii ''aaaaaaaaaaaaaaaaaaaa''"
  have h15: "15 < length ?s" and h3: "3 < length ?s"
    by code_simp+
  have len: "length ?s = 20"
    by code_simp
  have fits: "length (ascii ''...[+'' @ decimal (20 - 15) @ ascii '' chars]'') \<le> 15"
    by code_simp
  have small: "3 < length (ascii ''...[+'' @ decimal (20 - 3) @ ascii '' chars]'')"
    by code_simp
  have out15: "take (nat (max 0 (int 15 -
                  int (length (ascii ''...[+'' @ decimal (20 - 15) @ ascii '' chars]'')))))
                 ?s @ ascii ''...[+'' @ decimal (20 - 15) @ ascii '' chars]'' =
               ascii ''aa...[+5 chars]''"
    by code_simp
  have out3: "ascii ''...[+'' @ decimal (20 - 3) @ ascii '' chars]'' = ascii ''...[+17 chars]''"
    by code_simp
  have n15: "(20::nat) - 15 = 5" and n3: "(20::nat) - 3 = 17"
    by simp_all
  note at15 = marker_is_excess_over_budget [OF h15, unfolded Let_def len]
  note at3 = marker_is_excess_over_budget [OF h3, unfolded Let_def len]
  from at15
  have "value (truncateString ?s 15) =
          take (nat (max 0 (int 15 -
                  int (length (ascii ''...[+'' @ decimal (20 - 15) @ ascii '' chars]'')))))
            ?s @ ascii ''...[+'' @ decimal (20 - 15) @ ascii '' chars]''"
    and c15: "markerCount (value (truncateString ?s 15)) = 20 - 15"
    by blast+
  then have v15: "value (truncateString ?s 15) = ascii ''aa...[+5 chars]''"
    by (simp only: out15)
  from at15 fits have l15: "length (value (truncateString ?s 15)) = 15"
    by blast
  from at3 small
  have "value (truncateString ?s 3) = ascii ''...[+'' @ decimal (20 - 3) @ ascii '' chars]''"
    and c3: "markerCount (value (truncateString ?s 3)) = 20 - 3"
    by blast+
  then have v3: "value (truncateString ?s 3) = ascii ''...[+17 chars]''"
    by (simp only: out3)
  from h15 h3 fits small v15 c15 l15 v3 c3 show ?thesis
    by (simp only: n15 n3 simp_thms)
qed

section \<open>Properties of formatBinarySize\<close>

lemma toFixed1_nearest_tenth:
  assumes "0 < den"
  shows "\<exists>q d. d < 10 \<and> toFixed1 num den = decimal q @ ascii ''.'' @ [digit d] \<and>
           2 * den * (10 * q + d) \<le> 20 * num + den \<and>
           20 * num + den < 2 * den * (10 * q + d + 1)"
proof -
  define n where "n = (20 * num + den) div (2 * den)"
  have pos: "0 < 2 * den" using assms by simp
  have lo: "2 * den * n \<le> 20 * num + den"
    unfolding n_def by simp
  have "20 * num + den < 2 * den + 2 * den * n"
    unfolding n_def using pos by (rule dividend_less_times_div)
  then have hi: "20 * num + den < 2 * den * (n + 1)"
    by (simp only: distrib_left mult_1_right add.commute)
  have split: "10 * (n div 10) + n mod 10 = n" by simp
  have tf: "toFixed1 num den = decimal (n div 10) @ ascii ''.'' @ [digit (n mod 10)]"
    by (simp add: toFixed1_def n_def Let_def)
  have d: "n mod 10 < 10" by simp
  show ?thesis
  proof (intro exI conjI)
    show "n mod 10 < 10" by (rule d)
    show "toFixed1 num den = decimal (n div 10) @ ascii ''.'' @ [digit (n mod 10)]" by (rule tf)
    show "2 * den * (10 * (n div 10) + n mod 10) \<le> 20 * num + den"
      by (simp only: split lo)
    show "20 * num + den < 2 * den * (10 * (n div 10) + n mod 10 + 1)"
      by (simp only: split hi)
  qed
qed

lemma formatBinarySize_500: "formatBinarySize 500 = ascii ''[Binary data: 500 B]''"
  by (simp add: formatBinarySize_def decimal.simps digit_def ascii_def)

lemma formatBinarySize_5000: "formatBinarySize 5000 = ascii ''[Binary data: 4.9 KB]''"
  by (simp add: formatBinarySize_def toFixed1_def decimal.simps digit_def ascii_def)

lemma formatBinarySize_5000000:
  "formatBinarySize 5000000 = ascii ''[Binary data: 4.8 MB]''"
  by (simp add: formatBinarySize_def toFixed1_def decimal.simps digit_def ascii_def)

text \<open>
  C9. Below 1024 the byte count is printed as it is with unit B; from 1024 up to
  \<open>1024 * 1024\<close> the unit is KB and from \<open>1024 * 1024\<close> on it is MB, and the number
  printed is \<open>q.d\<close> with exactly one digit \<open>d\<close> after the point, the tenth nearest to
  \<open>bytes / 1024\<close> (to \<open>bytes / (1024 * 1024)\<close>), a tie going up. The three values of
  the specification come out as stated.
\<close>

theorem formatBinarySize_thresholds:
  "(bytes < 1024 \<longrightarrow>
      formatBinarySize bytes = ascii ''[Binary data: '' @ decimal bytes @ ascii '' B]'') \<and>
   (1024 \<le> bytes \<and> bytes < 1024 * 1024 \<longrightarrow>
      (\<exists>q d. d < 10 \<and>
         formatBinarySize bytes =
           ascii ''[Binary data: '' @ (decimal q @ ascii ''.'' @ [digit d]) @ ascii '' KB]'' \<and>
         2 * 1024 * (10 * q + d) \<le> 20 * bytes + 1024 \<and>
         20 * bytes + 1024 < 2 * 1024 * (10 * q + d + 1))) \<and>
   (1024 * 1024 \<le> bytes \<longrightarrow>
      (\<exists>q d. d < 10 \<and>
         formatBinarySize bytes =
           ascii ''[Binary data: '' @ (decimal q @ ascii ''.'' @ [digit d]) @ ascii '' MB]'' \<and>
         2 * (1024 * 1024) * (10 * q + d) \<le> 20 * bytes + 1024 * 1024 \<and>
         20 * bytes + 1024 * 1024 < 2 * (1024 * 1024) * (10 * q + d + 1))) \<and>
   formatBinarySize 500 = ascii ''[Binary data: 500 B]'' \<and>
   formatBinarySize 5000 = ascii ''[Binary data: 4.9 KB]'' \<and>
   formatBinarySize 5000000 = ascii ''[Binary data: 4.8 MB]''"
proof (intro conjI impI)
  assume "bytes < 1024"
  then show "formatBinarySize bytes = ascii ''[Binary data: '' @ decimal bytes @ ascii '' B]''"
    by (simp add: formatBinarySize_def)
next
  assume kb: "1024 \<le> bytes \<and> bytes < 1024 * 1024"
  then have f: "formatBinarySize bytes =
      ascii ''[Binary data: '' @ toFixed1 bytes 1024 @ ascii '' KB]''"
    by (simp add: formatBinarySize_def)
  have "0 < (1024::nat)" by simp
  from toFixed1_nearest_tenth [OF this, of bytes]
  show "\<exists>q d. d < 10 \<and>
         formatBinarySize bytes =
           ascii ''[Binary data: '' @ (decimal q @ ascii ''.'' @ [digit d]) @ ascii '' KB]'' \<and>
         2 * 1024 * (10 * q + d) \<le> 20 * bytes + 1024 \<and>
         20 * bytes + 1024 < 2 * 1024 * (10 * q + d + 1)"
    unfolding f by blast
next
  assume mb: "1024 * 1024 \<le> bytes"
  then have f: "formatBinarySize bytes =
      ascii ''[Binary data: '' @ toFixed1 bytes (1024 * 1024) @ ascii '' MB]''"
    by (simp add: formatBinarySize_def)
  have "0 < (1024 * 1024::nat)" by simp
  from toFixed1_nearest_tenth [OF this, of bytes]
  show "\<exists>q d. d < 10 \<and>
         formatBinarySize bytes =
           ascii ''[Binary data: '' @ (decimal q @ ascii ''.'' @ [digit d]) @ ascii '' MB]'' \<and>
         2 * (1024 * 1024) * (10 * q + d) \<le> 20 * bytes + 1024 * 1024 \<and>
         20 * bytes + 1024 * 1024 < 2 * (1024 * 1024) * (10 * q + d + 1)"
    unfolding f by blast
next
  show "formatBinarySize 500 = ascii ''[Binary data: 500 B]''"
    by (rule formatBinarySize_500)
  show "formatBinarySize 5000 = ascii ''[Binary data: 4.9 KB]''"
    by (rule formatBinarySize_5000)
  show "formatBinarySize 5000000 = ascii ''[Binary data: 4.8 MB]''"
    by (rule formatBinarySize_5000000)
qed

theorem formatBinarySize_thresholds_witness:
  "(1000::nat) < 1024 \<and>
   formatBinarySize 1000 = ascii ''[Binary data: 1000 B]'' \<and>
   (1024::nat) \<le> 1024 \<and> (1024::nat) < 1024 * 1024 \<and>
   formatBinarySize 1024 = ascii ''[Binary data: 1.0 KB]'' \<and>
   (1024 * 1024::nat) \<le> 1048576 \<and>
   formatBinarySize 1048576 = ascii ''[Binary data: 1.0 MB]''"
proof -
  have d1000: "decimal 1000 = ascii ''1000''"
    by (simp add: decimal.simps digit_def ascii_def)
  have b: "(1000::nat) < 1024" by simp
  with formatBinarySize_thresholds [of 1000]
  have "formatBinarySize 1000 = ascii ''[Binary data: '' @ decimal 1000 @ ascii '' B]''"
    by blast
  then have "formatBinarySize 1000 = ascii ''[Binary data: 1000 B]''"
    by (simp add: d1000 ascii_def)
  moreover have "formatBinarySize 1024 = ascii ''[Binary data: 1.0 KB]''"
    by (simp add: formatBinarySize_def toFixed1_def decimal.simps digit_def ascii_def)
  moreover have "formatBinarySize 1048576 = ascii ''[Binary data: 1.0 MB]''"
    by (simp add: formatBinarySize_def toFixed1_def decimal.simps digit_def ascii_def)
  ultimately show ?thesis by simp
qed

section \<open>Properties of isBase64Binary\<close>

lemma isAlphanumeric_not_plusSlashEquals:
  assumes "isAlphanumeric c"
  shows "\<not> isPlusSlashEquals c"
  using assms
  by (auto simp add: isAlphanumeric_def isPlusSlashEquals_def codeUnit_def)

lemma no_base64Chars_in_alphanumeric:
  assumes "list_all isAlphanumeric s"
  shows "\<not> list_ex isPlusSlashEquals (filter P s)"
  using assms
  by (induction s) (simp_all add: isAlphanumeric_not_plusSlashEquals)

text \<open>
  C8. A string of fewer than 100 code units is never classified as base64 binary, and
  neither is a string made of the characters \<^verbatim>\<open>[A-Za-z0-9]\<close> only, whatever its length
  (so also when the length without white space is a multiple of 4).
\<close>

theorem isBase64Binary_rejects:
  "(length s < 100 \<longrightarrow> \<not> isBase64Binary s) \<and>
   (list_all isAlphanumeric s \<longrightarrow> \<not> isBase64Binary s)"
proof (intro conjI impI)
  assume "length s < 100"
  then show "\<not> isBase64Binary s"
    by (simp add: isBase64Binary_def)
next
  assume "list_all isAlphanumeric s"
  then have "\<not> list_ex isPlusSlashEquals (filter (\<lambda>c. \<not> isWhitespace c) s)"
    by (rule no_base64Chars_in_alphanumeric)
  then show "\<not> isBase64Binary s"
    by (simp add: isBase64Binary_def Let_def)
qed

theorem isBase64Binary_rejects_witness:
  "length (ascii ''short'') < 100 \<and>
   isBase64Binary (ascii ''short'') = False \<and>
   list_all isAlphanumeric (replicate 100 (codeUnit CHR ''a'')) \<and>
   length (filter (\<lambda>c. \<not> isWhitespace c) (replicate 100 (codeUnit CHR ''a''))) mod 4 = 0 \<and>
   isBase64Binary (replicate 100 (codeUnit CHR ''a'')) = False"
proof -
  have short: "length (ascii ''short'') < 100"
    by (simp add: ascii_def)
  have alnum: "list_all isAlphanumeric (replicate 100 (codeUnit CHR ''a''))"
    by (simp add: list_all_iff isAlphanumeric_def codeUnit_def)
  have ws: "\<not> isWhitespace (codeUnit CHR ''a'')"
    by (simp add: isWhitespace_def codeUnit_def)
  have aligned:
    "length (filter (\<lambda>c. \<not> isWhitespace c) (replicate 100 (codeUnit CHR ''a''))) mod 4 = 0"
    by (simp add: ws)
  from isBase64Binary_rejects [of "ascii ''short''"] short
  have "isBase64Binary (ascii ''short'') = False" by blast
  moreover from isBase64Binary_rejects [of "replicate 100 (codeUnit CHR ''a'')"] alnum
  have "isBase64Binary (replicate 100 (codeUnit CHR ''a'')) = False" by blast
  ultimately show ?thesis using short alnum aligned by blast
qed

section \<open>Properties of truncateResponseBody\<close>

lemma truncateString_originalLength:
  "truncateResult.originalLength (truncateString s b) = length s"
  by (simp add: truncateString_def)

text \<open>
  C6. With the explicit flag set, the result is binary and marked truncated for every
  body and every budget, whatever the heuristic detector says of the body, and the text
  is the formatted size of \<open>\<lfloor>length body * 3 / 4\<rfloor>\<close> bytes.
\<close>

theorem truncateResponseBody_base64Encoded:
  "truncateResponseBody JSON_parse JSON_stringify stackLimit b True options =
     \<lparr>body = formatBinarySize ((length b * 3) div 4),
      truncated = True,
      originalLength = length b,
      type = BinaryBody\<rparr>"
  by (simp add: truncateResponseBody_def Let_def)

theorem truncateResponseBody_base64Encoded_witness:
  "isBase64Binary (ascii ''{}'') = False \<and>
   truncateResponseBody (\<lambda>s. Some (JObject [] :: nat json)) (\<lambda>v. Some (ascii ''{}'')) 100
       (ascii ''{}'') True (Some 500) =
     \<lparr>body = ascii ''[Binary data: 1 B]'',
      truncated = True,
      originalLength = 2,
      type = BinaryBody\<rparr>"
proof -
  have "isBase64Binary (ascii ''{}'') = False"
    by (simp add: isBase64Binary_def ascii_def)
  moreover have "formatBinarySize ((length (ascii ''{}'') * 3) div 4) = ascii ''[Binary data: 1 B]''"
    by (simp add: formatBinarySize_def decimal.simps digit_def ascii_def)
  moreover have "length (ascii ''{}'') = 2"
    by (simp add: ascii_def)
  ultimately show ?thesis
    using truncateResponseBody_base64Encoded
      [of "\<lambda>s. Some (JObject [] :: nat json)" "\<lambda>v. Some (ascii ''{}'')" 100 "ascii ''{}''"
        "Some 500"]
    by simp
qed

text \<open>
  C10. In each of the three branches the reported original length is the length of the
  raw body: the binary and the JSON branch store \<^verbatim>\<open>body.length\<close>, and the text branch,
  however the \<^verbatim>\<open>catch\<close> was reached, stores the original length that \<open>truncateString\<close>
  reports for the body, which is its length. In the JSON branch it is not the length of
  the serialised parsed value.
\<close>

theorem truncateResponseBody_originalLength:
  "originalLength
     (truncateResponseBody JSON_parse JSON_stringify stackLimit b base64Encoded options) =
     length b"
proof (cases "base64Encoded \<or> isBase64Binary b")
  case True
  then show ?thesis
    by (simp add: truncateResponseBody_def Let_def)
next
  case False
  then show ?thesis
    by (simp add: truncateResponseBody_def Let_def truncateString_originalLength
        split: option.split)
qed

section \<open>Assignments to a fresh object\<close>

lemma insertIndexed_after_smaller:
  assumes "list_all (\<lambda>(k, w). \<exists>j. arrayIndex k = Some j \<and> j < i) props"
  shows "insertIndexed i key v props = props @ [(key, v)]"
  using assms by (induction props) auto

lemma keyBefore_index:
  assumes "keyBefore k key" and "arrayIndex key = Some i"
  shows "\<exists>j. arrayIndex k = Some j \<and> j < i"
  using assms by (simp add: keyBefore_def split: option.splits)

lemma setProperty_appends:
  assumes "key \<noteq> PROTO"
    and "key \<notin> set (map fst props)"
    and "ownKeyOrder (map fst props @ [key])"
  shows "setProperty props key v = props @ [(key, v)]"
proof (cases "arrayIndex key")
  case None
  with assms(1,2) show ?thesis
    by (simp add: setProperty_def)
next
  case (Some i)
  from assms(3) have "\<forall>k \<in> set (map fst props). keyBefore k key"
    by (simp add: ownKeyOrder_def sorted_wrt_append)
  then have "\<exists>j. arrayIndex k = Some j \<and> j < i" if "(k, w) \<in> set props" for k w
    using that Some by (intro keyBefore_index [of k key]) force+
  then have "list_all (\<lambda>(k, w). \<exists>j. arrayIndex k = Some j \<and> j < i) props"
    by (auto simp add: list_all_iff)
  then have "insertIndexed i key v props = props @ [(key, v)]"
    by (rule insertIndexed_after_smaller)
  with Some assms(1,2) show ?thesis
    by (simp add: setProperty_def)
qed

lemma fold_setProperty:
  assumes "distinct (map fst acc @ map fst es)"
    and "ownKeyOrder (map fst acc @ map fst es)"
    and "PROTO \<notin> set (map fst es)"
  shows "fold (\<lambda>(key, val) result. setProperty result key (f val)) es acc =
         acc @ map (\<lambda>(key, val). (key, f val)) es"
  using assms
proof (induction es arbitrary: acc)
  case Nil
  then show ?case by simp
next
  case (Cons e es)
  obtain k v where e: "e = (k, v)" by (cases e)
  from Cons.prems have k: "k \<noteq> PROTO" "k \<notin> set (map fst acc)"
    by (auto simp add: e)
  from Cons.prems(2) have "ownKeyOrder (map fst acc @ [k])"
    by (simp add: e ownKeyOrder_def sorted_wrt_append)
  with k have step: "setProperty acc k (f v) = acc @ [(k, f v)]"
    by (rule setProperty_appends)
  have "fold (\<lambda>(key, val) result. setProperty result key (f val)) es (acc @ [(k, f v)]) =
        (acc @ [(k, f v)]) @ map (\<lambda>(key, val). (key, f val)) es"
  proof (rule Cons.IH)
    show "distinct (map fst (acc @ [(k, f v)]) @ map fst es)"
      using Cons.prems(1) by (simp add: e)
    show "ownKeyOrder (map fst (acc @ [(k, f v)]) @ map fst es)"
      using Cons.prems(2) by (simp add: e)
    show "PROTO \<notin> set (map fst es)"
      using Cons.prems(3) by (simp add: e)
  qed
  then show ?case
    by (simp add: e step)
qed

lemma truncateJsonValues_object:
  assumes "distinct (map fst entries)"
    and "ownKeyOrder (map fst entries)"
    and "PROTO \<notin> set (map fst entries)"
  shows "truncateJsonValues (JObject entries) options =
         JObject (map (\<lambda>(key, val). (key, truncateJsonValues val options)) entries)"
  using fold_setProperty [where acc = "[]" and es = entries
      and f = "\<lambda>val. truncateJsonValues val options"] assms
  by simp

text \<open>
  For a value of the runtime in which no object has an own property named
  \<^verbatim>\<open>__proto__\<close>, the traversal keeps the shape: the same keys in the same order in every
  object, the same number and order of elements in every array, and the same null,
  boolean and number leaves.
\<close>

lemma truncateJsonValues_skeleton:
  assumes "wellFormed v" and "protoFree v"
  shows "skeleton (truncateJsonValues v options) = skeleton v"
  using assms
proof (induction v)
  case (JArray items)
  then show ?case
    by (simp add: list_all_iff)
next
  case (JObject entries)
  from JObject.prems have shape:
    "truncateJsonValues (JObject entries) options =
     JObject (map (\<lambda>(key, val). (key, truncateJsonValues val options)) entries)"
    by (intro truncateJsonValues_object) simp_all
  have "skeleton (truncateJsonValues val options) = skeleton val"
    if "(key, val) \<in> set entries" for key val
  proof (rule JObject.IH)
    show "(key, val) \<in> set entries" by (rule that)
    show "val \<in> Basic_BNFs.snds (key, val)" by simp
    from JObject.prems that show "wellFormed val" "protoFree val"
      by (auto simp add: list_all_iff)
  qed
  then show ?case
    by (simp only: shape skeleton.simps) (auto simp add: case_prod_unfold)
qed simp_all

text \<open>
  When moreover no string leaf exceeds the budget, the traversal returns the value
  itself.
\<close>

lemma truncateJsonValues_within_budget:
  assumes "wellFormed v" and "protoFree v" and "stringsWithin (maxStringLengthOf options) v"
  shows "truncateJsonValues v options = v"
  using assms
proof (induction v)
  case (JString s)
  then show ?case
    by (simp add: truncateString_def)
next
  case (JArray items)
  then show ?case
    by (simp add: list_all_iff map_idI)
next
  case (JObject entries)
  from JObject.prems have shape:
    "truncateJsonValues (JObject entries) options =
     JObject (map (\<lambda>(key, val). (key, truncateJsonValues val options)) entries)"
    by (intro truncateJsonValues_object) simp_all
  have "truncateJsonValues val options = val"
    if "(key, val) \<in> set entries" for key val
  proof (rule JObject.IH)
    show "(key, val) \<in> set entries" by (rule that)
    show "val \<in> Basic_BNFs.snds (key, val)" by simp
    from JObject.prems that
    show "wellFormed val" "protoFree val" "stringsWithin (maxStringLengthOf options) val"
      by (auto simp add: list_all_iff)
  qed
  then have "map (\<lambda>(key, val). (key, truncateJsonValues val options)) entries = entries"
    by (intro map_idI) auto
  then show ?case
    by (simp only: shape)
qed simp_all

section \<open>The traversal on a bounded call stack\<close>

lemma nesting_pos: "0 < nesting v"
  by (cases v) simp_all

lemma le_foldr_max:
  assumes "x \<in> set xs"
  shows "f x \<le> foldr max (map f xs) (0::nat)"
  using assms by (induction xs) auto

lemma foldr_max_bound:
  assumes "\<And>x. x \<in> set xs \<Longrightarrow> f x \<le> (d::nat)"
  shows "foldr max (map f xs) 0 \<le> d"
  using assms by (induction xs) auto

lemma those_map_Some:
  assumes "\<And>x. x \<in> set xs \<Longrightarrow> f x = Some (g x)"
  shows "those (map f xs) = Some (map g xs)"
  using assms by (induction xs) simp_all

lemma those_map_None:
  assumes "x \<in> set xs" and "f x = None"
  shows "those (map f xs) = None"
  using assms by (induction xs) (auto split: option.splits)

lemma fold_guarded_None:
  "fold (\<lambda>(key, val) result.
           case result of
             None \<Rightarrow> None
           | Some props \<Rightarrow>
               (case f val of None \<Rightarrow> None | Some w \<Rightarrow> Some (setProperty props key w)))
     es None = None"
  by (induction es) (simp_all add: case_prod_unfold)

lemma fold_guarded_Some:
  assumes "\<And>key val. (key, val) \<in> set es \<Longrightarrow> f val = Some (g val)"
  shows "fold (\<lambda>(key, val) result.
                 case result of
                   None \<Rightarrow> None
                 | Some props \<Rightarrow>
                     (case f val of None \<Rightarrow> None | Some w \<Rightarrow> Some (setProperty props key w)))
           es (Some acc) =
         Some (fold (\<lambda>(key, val) result. setProperty result key (g val)) es acc)"
  using assms
proof (induction es arbitrary: acc)
  case Nil
  then show ?case by simp
next
  case (Cons e es)
  obtain k v where e: "e = (k, v)" by (cases e)
  have "f v = Some (g v)" by (rule Cons.prems [of k]) (simp add: e)
  moreover have "fold (\<lambda>(key, val) result.
                 case result of
                   None \<Rightarrow> None
                 | Some props \<Rightarrow>
                     (case f val of None \<Rightarrow> None | Some w \<Rightarrow> Some (setProperty props key w)))
           es (Some (setProperty acc k (g v))) =
         Some (fold (\<lambda>(key, val) result. setProperty result key (g val)) es
                 (setProperty acc k (g v)))"
  proof (rule Cons.IH)
    fix key val
    assume "(key, val) \<in> set es"
    then show "f val = Some (g val)"
      by (intro Cons.prems [of key]) simp
  qed
  ultimately show ?case
    by (simp add: e)
qed

lemma fold_guarded_fails:
  assumes "(key, val) \<in> set es" and "f val = None"
  shows "fold (\<lambda>(key, val) result.
                 case result of
                   None \<Rightarrow> None
                 | Some props \<Rightarrow>
                     (case f val of None \<Rightarrow> None | Some w \<Rightarrow> Some (setProperty props key w)))
           es acc = None"
  using assms
proof (induction es arbitrary: acc)
  case Nil
  then show ?case by simp
next
  case (Cons e es)
  show ?case
  proof (cases "e = (key, val)")
    case True
    with Cons.prems(2) show ?thesis
      by (cases acc) (simp_all add: fold_guarded_None)
  next
    case False
    with Cons.prems have "(key, val) \<in> set es" by simp
    then show ?thesis
      using Cons.prems(2) by (simp add: Cons.IH)
  qed
qed

text \<open>
  With enough room on the stack the bounded traversal returns what the traversal
  computes, and with less it raises.
\<close>

lemma truncateJsonValuesWithin_enough:
  assumes "nesting v \<le> d"
  shows "truncateJsonValuesWithin d v options = Some (truncateJsonValues v options)"
  using assms
proof (induction d arbitrary: v)
  case 0
  with nesting_pos [of v] show ?case by simp
next
  case (Suc d)
  show ?case
  proof (cases v)
    case (JArray items)
    have "truncateJsonValuesWithin d item options = Some (truncateJsonValues item options)"
      if "item \<in> set items" for item
    proof (rule Suc.IH)
      from that have "nesting item \<le> foldr max (map nesting items) 0"
        by (rule le_foldr_max)
      with Suc.prems show "nesting item \<le> d"
        by (simp add: JArray)
    qed
    then have "those (map (\<lambda>item. truncateJsonValuesWithin d item options) items) =
               Some (map (\<lambda>item. truncateJsonValues item options) items)"
      by (rule those_map_Some)
    then show ?thesis
      by (simp add: JArray)
  next
    case (JObject entries)
    have "truncateJsonValuesWithin d val options = Some (truncateJsonValues val options)"
      if "(key, val) \<in> set entries" for key val
    proof (rule Suc.IH)
      from that
      have "(\<lambda>(key, val). nesting val) (key, val) \<le>
            foldr max (map (\<lambda>(key, val). nesting val) entries) 0"
        by (rule le_foldr_max)
      with Suc.prems show "nesting val \<le> d"
        by (simp add: JObject)
    qed
    then have "fold (\<lambda>(key, val) result.
                 case result of
                   None \<Rightarrow> None
                 | Some props \<Rightarrow>
                     (case truncateJsonValuesWithin d val options of
                        None \<Rightarrow> None
                      | Some w \<Rightarrow> Some (setProperty props key w)))
           entries (Some []) =
         Some (fold (\<lambda>(key, val) result.
                       setProperty result key (truncateJsonValues val options)) entries [])"
      by (rule fold_guarded_Some)
    then show ?thesis
      by (simp add: JObject)
  qed simp_all
qed

lemma truncateJsonValuesWithin_overflow:
  assumes "d < nesting v"
  shows "truncateJsonValuesWithin d v options = None"
  using assms
proof (induction d arbitrary: v)
  case 0
  then show ?case by simp
next
  case (Suc d)
  show ?case
  proof (cases v)
    case (JArray items)
    with Suc.prems have "\<not> foldr max (map nesting items) 0 \<le> d"
      by simp
    then have "\<not> (\<forall>item \<in> set items. nesting item \<le> d)"
      using foldr_max_bound [of items nesting d] by blast
    then obtain item where item: "item \<in> set items" "d < nesting item"
      by (auto simp add: not_le)
    then have "truncateJsonValuesWithin d item options = None"
      by (intro Suc.IH)
    with item(1)
    have "those (map (\<lambda>item. truncateJsonValuesWithin d item options) items) = None"
      by (rule those_map_None)
    then show ?thesis
      by (simp add: JArray)
  next
    case (JObject entries)
    with Suc.prems have "\<not> foldr max (map (\<lambda>(key, val). nesting val) entries) 0 \<le> d"
      by simp
    then have "\<not> (\<forall>e \<in> set entries. (\<lambda>(key, val). nesting val) e \<le> d)"
      using foldr_max_bound [of entries "\<lambda>(key, val). nesting val" d] by blast
    then obtain key val where entry: "(key, val) \<in> set entries" "d < nesting val"
      by (auto simp add: not_le)
    then have "truncateJsonValuesWithin d val options = None"
      by (intro Suc.IH)
    with entry(1)
    have "fold (\<lambda>(key, val) result.
                 case result of
                   None \<Rightarrow> None
                 | Some props \<Rightarrow>
                     (case truncateJsonValuesWithin d val options of
                        None \<Rightarrow> None
                      | Some w \<Rightarrow> Some (setProperty props key w)))
           entries (Some []) = None"
      by (rule fold_guarded_fails)
    then show ?thesis
      by (simp add: JObject)
  next
    case JNull
    with Suc.prems show ?thesis by simp
  next
    case (JBool x)
    with Suc.prems show ?thesis by simp
  next
    case (JNumber x)
    with Suc.prems show ?thesis by simp
  next
    case (JString x)
    with Suc.prems show ?thesis by simp
  qed
qed

section \<open>Properties of truncateJsonValues\<close>

text \<open>
  C3 fails on the code for an object that has an own property named \<^verbatim>\<open>__proto__\<close>,
  such as the value of \<^verbatim>\<open>JSON.parse('{"__proto__":"x"}')\<close>: it is an object of the
  runtime with one key, and the traversal returns an object with no key. The
  assignment \<^verbatim>\<open>result[key] = ...\<close> on the fresh \<^verbatim>\<open>{}\<close> does not create that property.
  The shape of the result differs from the shape of the input, at any budget.
\<close>

theorem truncateJsonValues_drops_proto_key:
  "wellFormed (JObject [(ascii ''__proto__'', JString (ascii ''x''))]) \<and>
   truncateJsonValues (JObject [(ascii ''__proto__'', JString (ascii ''x''))]) (Some 500) =
     JObject [] \<and>
   skeleton (truncateJsonValues (JObject [(ascii ''__proto__'', JString (ascii ''x''))])
       (Some 500)) \<noteq>
     skeleton (JObject [(ascii ''__proto__'', JString (ascii ''x''))])"
  by (simp add: ownKeyOrder_def setProperty_def PROTO_def)

section \<open>Properties of truncateNetworkEntry and truncateHeaders\<close>

text \<open>
  The entry: only \<open>url\<close>, \<open>statusText\<close> and \<open>error\<close> go through \<open>truncateString\<close>; every
  other field, and every further field of an extension of the record, is copied.
\<close>

lemma truncateNetworkEntry_frame:
  "requestId (truncateNetworkEntry entry options) = requestId entry \<and>
   method (truncateNetworkEntry entry options) = method entry \<and>
   status (truncateNetworkEntry entry options) = status entry \<and>
   mimeType (truncateNetworkEntry entry options) = mimeType entry \<and>
   resourceType (truncateNetworkEntry entry options) = resourceType entry \<and>
   timestamp (truncateNetworkEntry entry options) = timestamp entry \<and>
   completed (truncateNetworkEntry entry options) = completed entry \<and>
   networkEntryForTruncation.more (truncateNetworkEntry entry options) =
     networkEntryForTruncation.more entry \<and>
   url (truncateNetworkEntry entry options) =
     value (truncateString (url entry) (maxStringLengthOf options)) \<and>
   statusText (truncateNetworkEntry entry options) =
     map_option (\<lambda>s. value (truncateString s (maxStringLengthOf options))) (statusText entry) \<and>
   error (truncateNetworkEntry entry options) =
     map_option (\<lambda>s. value (truncateString s (maxStringLengthOf options))) (error entry)"
  by (simp add: truncateNetworkEntry_def Let_def truncateString_def split: option.split)

text \<open>
  The headers: for an object of the runtime that has no header named \<^verbatim>\<open>__proto__\<close>,
  the result has the same names in the same order, and each value is the truncation of
  the value it had.
\<close>

lemma truncateHeaders_entries:
  assumes "distinct (map fst headers)"
    and "ownKeyOrder (map fst headers)"
    and "PROTO \<notin> set (map fst headers)"
  shows "truncateHeaders headers options =
         map (\<lambda>(key, val). (key, value (truncateString val (maxStringLengthOf options))))
           headers"
  using fold_setProperty [where acc = "[]" and es = headers
      and f = "\<lambda>val. value (truncateString val (maxStringLengthOf options))"] assms
  by (simp add: truncateHeaders_def Let_def)

lemma truncateHeaders_names:
  assumes "distinct (map fst headers)"
    and "ownKeyOrder (map fst headers)"
    and "PROTO \<notin> set (map fst headers)"
  shows "map fst (truncateHeaders headers options) = map fst headers"
  using assms by (simp add: truncateHeaders_entries case_prod_unfold)

lemma arrayIndex_accept: "arrayIndex (ascii ''accept'') = None"
  by (simp add: arrayIndex_def decimalValue_def digitValue_def ascii_def decimal.simps
      digit_def Let_def)

lemma arrayIndex_proto: "arrayIndex (ascii ''__proto__'') = None"
  by (simp add: arrayIndex_def decimalValue_def digitValue_def ascii_def decimal.simps
      digit_def Let_def)

text \<open>
  C7 fails on the code for a header map that has a header named \<^verbatim>\<open>__proto__\<close>, such
  as the value of \<^verbatim>\<open>JSON.parse('{"__proto__":"x","accept":"*/*"}')\<close>: the result has the
  header \<open>accept\<close> only. The name \<^verbatim>\<open>__proto__\<close> is lost by the same assignment on a
  fresh \<^verbatim>\<open>{}\<close> as in \<open>truncateJsonValues\<close>.
\<close>

theorem truncateHeaders_drops_proto_header:
  "distinct (map fst [(ascii ''__proto__'', ascii ''x''), (ascii ''accept'', ascii ''*/*'')]) \<and>
   ownKeyOrder (map fst [(ascii ''__proto__'', ascii ''x''), (ascii ''accept'', ascii ''*/*'')]) \<and>
   truncateHeaders [(ascii ''__proto__'', ascii ''x''), (ascii ''accept'', ascii ''*/*'')]
       (Some 500) =
     [(ascii ''accept'', ascii ''*/*'')] \<and>
   map fst (truncateHeaders [(ascii ''__proto__'', ascii ''x''), (ascii ''accept'', ascii ''*/*'')]
       (Some 500)) \<noteq>
     map fst [(ascii ''__proto__'', ascii ''x''), (ascii ''accept'', ascii ''*/*'')]"
proof -
  let ?headers = "[(ascii ''__proto__'', ascii ''x''), (ascii ''accept'', ascii ''*/*'')]"
  have keys: "distinct (map fst ?headers)"
    by (simp add: ascii_def)
  have order: "ownKeyOrder (map fst ?headers)"
    by (simp add: ownKeyOrder_def keyBefore_def arrayIndex_accept arrayIndex_proto)
  have short: "length (ascii ''*/*'') \<le> 500"
    by (simp add: ascii_def)
  have other: "ascii ''accept'' \<noteq> PROTO"
    by (simp add: PROTO_def ascii_def)
  have result: "truncateHeaders ?headers (Some 500) = [(ascii ''accept'', ascii ''*/*'')]"
    using short other
    by (simp add: truncateHeaders_def setProperty_def PROTO_def arrayIndex_accept
        maxStringLengthOf_def truncateString_def)
  have "map fst [(ascii ''accept'', ascii ''*/*'')] \<noteq> map fst ?headers"
    by simp
  with keys order result show ?thesis
    by (simp only: simp_thms)
qed

section \<open>The JSON branch of truncateResponseBody\<close>

lemma isBase64Binary_number_literal:
  "isBase64Binary (ascii ''1'' @ replicate 95 (codeUnit CHR ''0'') @ ascii ''e+10'')"
proof -
  define s where "s = ascii ''1'' @ replicate 95 (codeUnit CHR ''0'') @ ascii ''e+10''"
  have ws: "\<not> isWhitespace (codeUnit CHR ''0'')"
    by (simp add: isWhitespace_def codeUnit_def)
  have cleaned: "filter (\<lambda>c. \<not> isWhitespace c) s = s"
    unfolding s_def by (simp add: ws) (simp add: isWhitespace_def ascii_def)
  have alphabet: "list_all isBase64Alphabet s"
    unfolding s_def by (simp add: list_all_iff isBase64Alphabet_def codeUnit_def ascii_def)
  then have whole: "takeWhile isBase64Alphabet s = s" "dropWhile isBase64Alphabet s = []"
    by (simp_all add: list_all_iff)
  have "s \<noteq> []"
    unfolding s_def by (simp add: ascii_def)
  then have pattern: "base64Pattern s"
    by (simp add: base64Pattern_def whole)
  have plus: "list_ex isPlusSlashEquals s"
    unfolding s_def by (simp add: isPlusSlashEquals_def codeUnit_def ascii_def)
  have len: "length s = 100"
    unfolding s_def by (simp add: ascii_def)
  then have sample: "take 1000 s = s"
    by simp
  have "isBase64Binary s"
    by (simp add: isBase64Binary_def Let_def cleaned len sample plus pattern)
  then show ?thesis
    by (simp only: s_def)
qed

text \<open>
  C4 as stated fails: a body that parses as JSON is not always classified as JSON,
  because the binary branch comes first. With the explicit flag set, the body
  \<^verbatim>\<open>{"a":"b"}\<close> is classified as binary. With the flag not set, the body made of
  \<^verbatim>\<open>1\<close>, 95 zeros and \<^verbatim>\<open>e+10\<close> is a JSON number literal of 100 characters, all of them
  in the base64 alphabet and one of them \<^verbatim>\<open>+\<close>, so the heuristic detector accepts it and
  the body is classified as binary too. Both hold whatever \<^verbatim>\<open>JSON.stringify\<close> returns,
  whatever number the literal denotes and whatever room the stack leaves.
\<close>

theorem json_body_classified_binary_counterexample:
  "\<forall>JSON_stringify n stackLimit.
     [ascii ''{\"a\":\"b\"}'' \<mapsto> JObject [(ascii ''a'', JString (ascii ''b''))]]
         (ascii ''{\"a\":\"b\"}'') =
       Some (JObject [(ascii ''a'', JString (ascii ''b''))]) \<and>
     type (truncateResponseBody
         [ascii ''{\"a\":\"b\"}'' \<mapsto> JObject [(ascii ''a'', JString (ascii ''b''))]]
         JSON_stringify stackLimit (ascii ''{\"a\":\"b\"}'') True (Some 500)) = BinaryBody \<and>
     [ascii ''1'' @ replicate 95 (codeUnit CHR ''0'') @ ascii ''e+10'' \<mapsto> JNumber n]
         (ascii ''1'' @ replicate 95 (codeUnit CHR ''0'') @ ascii ''e+10'') =
       Some (JNumber n) \<and>
     type (truncateResponseBody
         [ascii ''1'' @ replicate 95 (codeUnit CHR ''0'') @ ascii ''e+10'' \<mapsto> JNumber n]
         JSON_stringify stackLimit
         (ascii ''1'' @ replicate 95 (codeUnit CHR ''0'') @ ascii ''e+10'')
         False (Some 500)) = BinaryBody"
  using isBase64Binary_number_literal
  by (simp add: truncateResponseBody_def Let_def)

text \<open>
  C4 as amended. The explicit flag is not set, the heuristic detector does not classify
  the body as base64, and the body parses as JSON. When the traversal and the two
  serialisations complete (the parsed value is not nested deeper than the call stack
  holds, and \<^verbatim>\<open>JSON.stringify\<close> returns for the traversed and for the parsed value),
  the body is classified as JSON, the text is the serialisation of the traversed value
  and the truncated flag is the comparison of the lengths of the two serialisations;
  when moreover no string leaf of the parsed value exceeds the budget and no object in
  it has a key named \<^verbatim>\<open>__proto__\<close>, the flag is false. When one of the three raises
  instead, the \<^verbatim>\<open>catch\<close> treats the body as plain text. (\<open>wellFormed\<close> holds of every
  value of the runtime: it says that the list of an object's properties has distinct
  keys in the order of own property keys.)
\<close>

theorem truncateResponseBody_json:
  assumes "\<not> base64Encoded"
    and "\<not> isBase64Binary b"
    and "JSON_parse b = Some parsed"
  shows "(nesting parsed \<le> stackLimit \<and>
          JSON_stringify (truncateJsonValues parsed (Some (maxStringLengthOf options))) =
            Some truncatedBody \<and>
          JSON_stringify parsed = Some originalFormatted \<longrightarrow>
            type (truncateResponseBody JSON_parse JSON_stringify stackLimit b
                base64Encoded options) = JsonBody \<and>
            body (truncateResponseBody JSON_parse JSON_stringify stackLimit b
                base64Encoded options) = truncatedBody \<and>
            truncated (truncateResponseBody JSON_parse JSON_stringify stackLimit b
                base64Encoded options) =
              (length truncatedBody < length originalFormatted) \<and>
            (wellFormed parsed \<and> protoFree parsed \<and>
             stringsWithin (maxStringLengthOf options) parsed \<longrightarrow>
               truncated (truncateResponseBody JSON_parse JSON_stringify stackLimit b
                   base64Encoded options) = False)) \<and>
         (stackLimit < nesting parsed \<or>
          JSON_stringify (truncateJsonValues parsed (Some (maxStringLengthOf options))) = None \<or>
          JSON_stringify parsed = None \<longrightarrow>
            type (truncateResponseBody JSON_parse JSON_stringify stackLimit b
                base64Encoded options) = TextBody \<and>
            body (truncateResponseBody JSON_parse JSON_stringify stackLimit b
                base64Encoded options) =
              value (truncateString b (maxStringLengthOf options)))"
proof -
  let ?r = "truncateResponseBody JSON_parse JSON_stringify stackLimit b base64Encoded options"
  let ?m = "maxStringLengthOf options"
  let ?walked = "truncateJsonValues parsed (Some ?m)"
  have budget: "maxStringLengthOf (Some ?m) = ?m"
    by (simp add: maxStringLengthOf_def)
  have json: "type ?r = JsonBody \<and> body ?r = truncatedBody \<and>
      truncated ?r = (length truncatedBody < length originalFormatted) \<and>
      (wellFormed parsed \<and> protoFree parsed \<and> stringsWithin ?m parsed \<longrightarrow>
         truncated ?r = False)"
    if completed: "nesting parsed \<le> stackLimit \<and>
        JSON_stringify ?walked = Some truncatedBody \<and>
        JSON_stringify parsed = Some originalFormatted"
  proof -
    from completed
    have walk: "truncateJsonValuesWithin stackLimit parsed (Some ?m) = Some ?walked"
      by (simp add: truncateJsonValuesWithin_enough)
    with assms completed have r: "?r = \<lparr>body = truncatedBody,
        truncated = length truncatedBody < length originalFormatted,
        originalLength = length b, type = JsonBody\<rparr>"
      by (simp add: truncateResponseBody_def Let_def)
    have "truncated ?r = False"
      if "wellFormed parsed \<and> protoFree parsed \<and> stringsWithin ?m parsed"
    proof -
      from that have "?walked = parsed"
        by (intro truncateJsonValues_within_budget) (simp_all add: budget)
      with completed have "Some truncatedBody = Some originalFormatted"
        by (elim conjE) (simp only:)
      then have "truncatedBody = originalFormatted"
        by simp
      with r show ?thesis
        by simp
    qed
    with r show ?thesis
      by simp
  qed
  have raised: "type ?r = TextBody \<and> body ?r = value (truncateString b ?m)"
    if failed: "stackLimit < nesting parsed \<or> JSON_stringify ?walked = None \<or>
        JSON_stringify parsed = None"
  proof -
    have "(case truncateJsonValuesWithin stackLimit parsed (Some ?m) of
             None \<Rightarrow> None
           | Some truncated' \<Rightarrow>
               (case JSON_stringify truncated' of
                  None \<Rightarrow> None
                | Some truncatedBody \<Rightarrow>
                    (case JSON_stringify parsed of
                       None \<Rightarrow> None
                     | Some originalFormatted \<Rightarrow>
                         Some \<lparr>body = truncatedBody,
                               truncated = length truncatedBody < length originalFormatted,
                               originalLength = length b,
                               type = JsonBody\<rparr>))) = None"
    proof (cases "stackLimit < nesting parsed")
      case True
      then show ?thesis
        by (simp add: truncateJsonValuesWithin_overflow)
    next
      case False
      then have "truncateJsonValuesWithin stackLimit parsed (Some ?m) = Some ?walked"
        by (simp add: truncateJsonValuesWithin_enough)
      with False failed show ?thesis
        by (auto split: option.split)
    qed
    with assms have "?r = \<lparr>body = value (truncateString b ?m),
        truncated = truncateResult.truncated (truncateString b ?m),
        originalLength = truncateResult.originalLength (truncateString b ?m),
        type = TextBody\<rparr>"
      by (simp add: truncateResponseBody_def Let_def)
    then show ?thesis
      by simp
  qed
  from json raised show ?thesis
    by blast
qed

theorem truncateResponseBody_json_witness:
  "isBase64Binary (ascii ''{\"short\":\"value\"}'') = False \<and>
   [ascii ''{\"short\":\"value\"}'' \<mapsto>
      (JObject [(ascii ''short'', JString (ascii ''value''))] :: nat json)]
       (ascii ''{\"short\":\"value\"}'') =
     Some (JObject [(ascii ''short'', JString (ascii ''value''))]) \<and>
   nesting (JObject [(ascii ''short'', JString (ascii ''value''))] :: nat json) = 2 \<and>
   wellFormed (JObject [(ascii ''short'', JString (ascii ''value''))] :: nat json) \<and>
   protoFree (JObject [(ascii ''short'', JString (ascii ''value''))] :: nat json) \<and>
   stringsWithin 500 (JObject [(ascii ''short'', JString (ascii ''value''))] :: nat json) \<and>
   type (truncateResponseBody
       [ascii ''{\"short\":\"value\"}'' \<mapsto>
          (JObject [(ascii ''short'', JString (ascii ''value''))] :: nat json)]
       [JObject [(ascii ''short'', JString (ascii ''value''))] \<mapsto>
          ascii (''{'' @ [CHR 0x0A] @ ''  \"short\": \"value\"'' @ [CHR 0x0A] @ ''}'')]
       100 (ascii ''{\"short\":\"value\"}'') False (Some 500)) = JsonBody \<and>
   truncated (truncateResponseBody
       [ascii ''{\"short\":\"value\"}'' \<mapsto>
          (JObject [(ascii ''short'', JString (ascii ''value''))] :: nat json)]
       [JObject [(ascii ''short'', JString (ascii ''value''))] \<mapsto>
          ascii (''{'' @ [CHR 0x0A] @ ''  \"short\": \"value\"'' @ [CHR 0x0A] @ ''}'')]
       100 (ascii ''{\"short\":\"value\"}'') False (Some 500)) = False \<and>
   type (truncateResponseBody
       [ascii ''{\"short\":\"value\"}'' \<mapsto>
          (JObject [(ascii ''short'', JString (ascii ''value''))] :: nat json)]
       [JObject [(ascii ''short'', JString (ascii ''value''))] \<mapsto>
          ascii (''{'' @ [CHR 0x0A] @ ''  \"short\": \"value\"'' @ [CHR 0x0A] @ ''}'')]
       1 (ascii ''{\"short\":\"value\"}'') False (Some 500)) = TextBody"
proof -
  let ?b = "ascii ''{\"short\":\"value\"}''"
  let ?v = "JObject [(ascii ''short'', JString (ascii ''value''))] :: nat json"
  let ?t = "ascii (''{'' @ [CHR 0x0A] @ ''  \"short\": \"value\"'' @ [CHR 0x0A] @ ''}'')"
  have binary: "\<not> isBase64Binary ?b"
    by (simp add: isBase64Binary_def ascii_def)
  have parse: "[?b \<mapsto> ?v] ?b = Some ?v"
    by simp
  have deep: "nesting ?v = 2"
    by simp
  have wf: "wellFormed ?v"
    by (simp add: ownKeyOrder_def)
  have free: "protoFree ?v"
    by (simp add: PROTO_def ascii_def)
  have within: "stringsWithin (maxStringLengthOf (Some 500)) ?v"
    by (simp add: maxStringLengthOf_def ascii_def)
  from wf free within
  have walked: "truncateJsonValues ?v (Some (maxStringLengthOf (Some 500))) = ?v"
    by (intro truncateJsonValues_within_budget) (simp_all add: maxStringLengthOf_def)
  have serialised: "[?v \<mapsto> ?t] ?v = Some ?t"
    by simp
  note inst = truncateResponseBody_json [of False ?b "[?b \<mapsto> ?v]" ?v _ "[?v \<mapsto> ?t]"
      "Some 500" ?t ?t, OF _ binary parse]
  from inst [of 100] deep wf free within
  have "type (truncateResponseBody [?b \<mapsto> ?v] [?v \<mapsto> ?t] 100 ?b False (Some 500)) = JsonBody"
    and "truncated (truncateResponseBody [?b \<mapsto> ?v] [?v \<mapsto> ?t] 100 ?b False (Some 500)) = False"
    by (simp_all only: walked serialised) simp_all
  moreover from inst [of 1] deep
  have "type (truncateResponseBody [?b \<mapsto> ?v] [?v \<mapsto> ?t] 1 ?b False (Some 500)) = TextBody"
    by (simp only: walked serialised) simp
  ultimately show ?thesis
    using binary parse deep wf free within
    by (simp add: maxStringLengthOf_def)
qed

end
